theory Spec2Isabelle
  imports Complex_Main "HOL-Library.AList"
begin

section \<open>The popup of readagen: data model\<close>

text \<open>
  The source is the single component \<^verbatim>\<open>src/entrypoints/popup/App.vue\<close>. Its reactive
  references and its two module-level variables form the state of the popup; every
  function of the component is embedded as a function on that state.

  JavaScript numbers used for the speech rate and the speech pitch are only stored and
  copied by this code, never computed with. They are the type parameter \<open>'n\<close>; the two
  built-ins that convert them, \<^verbatim>\<open>parseFloat\<close> and \<^verbatim>\<open>Number.prototype.toString\<close>,
  are parameters of the model.
\<close>

record 'n js =
  parseFloat :: "string \<Rightarrow> 'n"
  toString :: "'n \<Rightarrow> string"

text \<open>A content segment, as pushed by the injected extractor (lines 139-143).\<close>

record segment =
  seg_text :: string
  seg_tag :: string
  isPriority :: bool

text \<open>A voice descriptor of the platform (\<^verbatim>\<open>name\<close>, \<^verbatim>\<open>lang\<close>, \<^verbatim>\<open>default\<close>).\<close>

record voice =
  voice_name :: string
  voice_lang :: string
  voice_default :: bool

text \<open>
  A \<^verbatim>\<open>SpeechSynthesisUtterance\<close> as built at lines 221-231. Its two handlers
  \<^verbatim>\<open>onend\<close> and \<^verbatim>\<open>onerror\<close> close over the component state only, so they are the
  same for every utterance and are the functions \<open>utterance_onend\<close> and
  \<open>utterance_onerror\<close> below.
\<close>

record 'n utterance =
  utt_text :: string
  utt_rate :: 'n
  utt_pitch :: 'n
  utt_voice :: "voice option"

text \<open>
  The platform's speech engine \<^verbatim>\<open>window.speechSynthesis\<close>: the utterances handed to
  \<^verbatim>\<open>speak\<close> and not yet finished or cancelled (the head is the one in flight), the
  \<^verbatim>\<open>paused\<close> flag, the voices \<^verbatim>\<open>getVoices()\<close> returns, and the
  \<^verbatim>\<open>onvoiceschanged\<close> property: \<open>None\<close> where the platform leaves it undefined,
  \<open>Some False\<close> where it is present and unset, \<open>Some True\<close> once the component has
  installed \<^verbatim>\<open>getVoices\<close> there.
\<close>

record 'n engine =
  queue :: "'n utterance list"
  paused :: bool
  eng_voices :: "voice list"
  onvoiceschanged :: "bool option"

definition speak :: "'n utterance \<Rightarrow> 'n engine \<Rightarrow> 'n engine" where
  "speak u e = e\<lparr>queue := queue e @ [u]\<rparr>"

definition cancel :: "'n engine \<Rightarrow> 'n engine" where
  "cancel e = e\<lparr>queue := []\<rparr>"

definition pause :: "'n engine \<Rightarrow> 'n engine" where
  "pause e = e\<lparr>paused := True\<rparr>"

definition resume :: "'n engine \<Rightarrow> 'n engine" where
  "resume e = e\<lparr>paused := False\<rparr>"

text \<open>
  An exception that leaves a function of the player uncaught: the only one the language
  can raise there is the \<^verbatim>\<open>TypeError\<close> of a property read on \<^verbatim>\<open>undefined\<close> or
  \<^verbatim>\<open>null\<close>.
\<close>

datatype thrown = TypeError

text \<open>
  A value caught by the \<^verbatim>\<open>catch\<close> of \<^verbatim>\<open>getPageContent\<close> (line 180): an
  \<^verbatim>\<open>Error\<close> object with its message, or a value that is no \<^verbatim>\<open>Error\<close>.
\<close>

datatype caught = ErrorObject string | OtherValue

text \<open>
  The key-value store \<^verbatim>\<open>localStorage\<close>. Where \<^verbatim>\<open>setItem\<close> can fail inside
  \<^verbatim>\<open>getPageContent\<close> (the store is full), the failure is part of the browser's answer
  to that extraction, below; in the watchers it is taken not to fail.
\<close>

type_synonym storage = "(string \<times> string) list"

definition getItem :: "string \<Rightarrow> storage \<Rightarrow> string option" where
  "getItem k st = map_of st k"

definition setItem :: "string \<Rightarrow> string \<Rightarrow> storage \<Rightarrow> storage" where
  "setItem k v st = AList.update k v st"

text \<open>
  The state: the reactive references of lines 6-16, the two variables of lines 19-20
  and the store. \<^verbatim>\<open>pageContent\<close> and \<^verbatim>\<open>pageTitle\<close> are assigned fields of the
  extractor's answer, which may be absent: \<open>None\<close> is \<^verbatim>\<open>undefined\<close>.
  \<^verbatim>\<open>speechSynthesis\<close> is \<^verbatim>\<open>null\<close> (\<open>None\<close>) until the engine is found.
  Each of the three watchers of lines 45-55 keeps the value of its reference that it saw
  last, at first the reference's initial value: \<open>watchedRate\<close>, \<open>watchedPitch\<close> and
  \<open>watchedVoice\<close>.
\<close>

record 'n app =
  pageContent :: "string option"
  pageTitle :: "string option"
  isLoading :: bool
  error :: string
  isReading :: bool
  currentSpeechIndex :: int
  contentSegments :: "segment list"
  speechRate :: 'n
  speechPitch :: 'n
  speechVoice :: string
  availableVoices :: "voice list"
  speechSynthesis :: "'n engine option"
  speechUtterance :: "'n utterance option"
  localStorage :: storage
  watchedRate :: 'n
  watchedPitch :: 'n
  watchedVoice :: string

text \<open>The popup as it opens, over whatever the store holds from earlier sessions.\<close>

definition init_app :: "storage \<Rightarrow> ('n::one) app" where
  "init_app st = \<lparr>pageContent = Some [], pageTitle = Some [], isLoading = False, error = [],
     isReading = False, currentSpeechIndex = 0, contentSegments = [], speechRate = 1,
     speechPitch = 1, speechVoice = [], availableVoices = [], speechSynthesis = None,
     speechUtterance = None, localStorage = st, watchedRate = 1, watchedPitch = 1,
     watchedVoice = []\<rparr>"

section \<open>The segment player (lines 188-284)\<close>

text \<open>\<^verbatim>\<open>stopReading\<close>, lines 250-255: without an engine nothing is done.\<close>

definition stopReading :: "'n app \<Rightarrow> 'n app" where
  "stopReading s =
     (case speechSynthesis s of
        None \<Rightarrow> s
      | Some e \<Rightarrow> s\<lparr>speechSynthesis := Some (cancel e), isReading := False\<rparr>)"

text \<open>
  \<^verbatim>\<open>speakCurrentSegment\<close>, lines 213-247. The guard tests only the upper end of the
  index; below 0 the array read gives \<^verbatim>\<open>undefined\<close> and \<^verbatim>\<open>segment.text\<close> throws,
  and with \<^verbatim>\<open>speechSynthesis\<close> null the call of \<^verbatim>\<open>speak\<close> throws.
\<close>

definition selectedVoice :: "'n app \<Rightarrow> voice option" where
  "selectedVoice s =
     (if speechVoice s \<noteq> [] then find (\<lambda>v. voice_name v = speechVoice s) (availableVoices s)
      else None)"

definition utterance_of :: "'n app \<Rightarrow> segment \<Rightarrow> 'n utterance" where
  "utterance_of s seg =
     \<lparr>utt_text = seg_text seg, utt_rate = speechRate s, utt_pitch = speechPitch s,
      utt_voice = selectedVoice s\<rparr>"

definition speakCurrentSegment :: "'n app \<Rightarrow> thrown + 'n app" where
  "speakCurrentSegment s =
     (if \<not> isReading s \<or> currentSpeechIndex s \<ge> int (length (contentSegments s))
      then Inr (s\<lparr>isReading := False\<rparr>)
      else if currentSpeechIndex s < 0 then Inl TypeError
      else
        let segment = contentSegments s ! nat (currentSpeechIndex s);
            u = utterance_of s segment
        in case speechSynthesis s of
             None \<Rightarrow> Inl TypeError
           | Some e \<Rightarrow> Inr (s\<lparr>speechUtterance := Some u, speechSynthesis := Some (speak u e)\<rparr>))"

text \<open>\<^verbatim>\<open>startReading\<close>, lines 189-210.\<close>

definition startReading :: "'n app \<Rightarrow> thrown + 'n app" where
  "startReading s =
     (if contentSegments s = [] then Inr (s\<lparr>error := ''No content to read''\<rparr>)
      else if speechSynthesis s = None then Inr (s\<lparr>error := ''Speech synthesis not available''\<rparr>)
      else
        let s1 = stopReading s;
            s2 = (if currentSpeechIndex s1 \<ge> int (length (contentSegments s1))
                  then s1\<lparr>currentSpeechIndex := 0\<rparr> else s1)
        in speakCurrentSegment (s2\<lparr>isReading := True\<rparr>))"

text \<open>The handlers installed on every utterance, lines 234-244.\<close>

definition utterance_onend :: "'n app \<Rightarrow> thrown + 'n app" where
  "utterance_onend s = speakCurrentSegment (s\<lparr>currentSpeechIndex := currentSpeechIndex s + 1\<rparr>)"

definition utterance_onerror :: "'n app \<Rightarrow> 'n app" where
  "utterance_onerror s = s\<lparr>error := ''Error during speech synthesis'', isReading := False\<rparr>"

text \<open>\<^verbatim>\<open>togglePause\<close>, lines 258-266.\<close>

definition togglePause :: "'n app \<Rightarrow> 'n app" where
  "togglePause s =
     (case speechSynthesis s of
        None \<Rightarrow> s
      | Some e \<Rightarrow> s\<lparr>speechSynthesis := Some (if paused e then resume e else pause e)\<rparr>)"

text \<open>\<^verbatim>\<open>nextSegment\<close>, lines 269-275, and \<^verbatim>\<open>prevSegment\<close>, lines 278-284.\<close>

definition nextSegment :: "'n app \<Rightarrow> thrown + 'n app" where
  "nextSegment s =
     (if \<not> isReading s then Inr s
      else
        let s1 = stopReading s
        in startReading (s1\<lparr>currentSpeechIndex := currentSpeechIndex s1 + 1\<rparr>))"

definition prevSegment :: "'n app \<Rightarrow> thrown + 'n app" where
  "prevSegment s =
     (if \<not> isReading s then Inr s
      else
        let s1 = stopReading s
        in startReading (s1\<lparr>currentSpeechIndex := max 0 (currentSpeechIndex s1 - 1)\<rparr>))"

section \<open>Settings and start-up (lines 23-89)\<close>

text \<open>
  The watchers of lines 45-55. A write to a reference does not run its watcher: Vue
  queues the watcher and runs the queue once the handler that made the write has
  returned, before any other event is handled. A watcher then calls its callback, here
  \<^verbatim>\<open>localStorage.setItem\<close>, only if the reference's value differs from the value it
  saw last. \<open>flushWatchers\<close> is that run of the queue, the three watchers in the order
  they were created.
\<close>

definition flushWatchers :: "'n js \<Rightarrow> 'n app \<Rightarrow> 'n app" where
  "flushWatchers js s =
     (let s1 = (if speechRate s \<noteq> watchedRate s
                then s\<lparr>localStorage :=
                         setItem ''wxt-speech-rate'' (toString js (speechRate s)) (localStorage s),
                       watchedRate := speechRate s\<rparr>
                else s);
          s2 = (if speechPitch s1 \<noteq> watchedPitch s1
                then s1\<lparr>localStorage :=
                          setItem ''wxt-speech-pitch'' (toString js (speechPitch s1)) (localStorage s1),
                        watchedPitch := speechPitch s1\<rparr>
                else s1)
      in if speechVoice s2 \<noteq> watchedVoice s2
         then s2\<lparr>localStorage := setItem ''wxt-speech-voice'' (speechVoice s2) (localStorage s2),
                 watchedVoice := speechVoice s2\<rparr>
         else s2)"

text \<open>\<^verbatim>\<open>String.prototype.includes\<close>.\<close>

definition str_includes :: "string \<Rightarrow> string \<Rightarrow> bool" where
  "str_includes str sub = list_ex (\<lambda>i. take (length sub) (drop i str) = sub) [0..<Suc (length str)]"

text \<open>
  \<^verbatim>\<open>getVoices\<close>, lines 63-78. It is a closure created after \<^verbatim>\<open>speechSynthesis\<close>
  has been assigned, so the first case does not arise.
\<close>

definition getVoices :: "'n app \<Rightarrow> 'n app" where
  "getVoices s =
     (case speechSynthesis s of
        None \<Rightarrow> s
      | Some e \<Rightarrow>
          let voices = eng_voices e
          in if voices \<noteq> [] then
               let s1 = s\<lparr>availableVoices := voices\<rparr>
               in if speechVoice s1 = [] \<and> voices \<noteq> [] then
                    let defaultVoice =
                          (case find (\<lambda>v. str_includes (voice_lang v) ''en'' \<and> voice_default v) voices of
                             Some v \<Rightarrow> v
                           | None \<Rightarrow> hd voices)
                    in s1\<lparr>speechVoice := voice_name defaultVoice\<rparr>
                  else s1
             else s)"

text \<open>
  \<^verbatim>\<open>initSpeechSynthesis\<close>, lines 58-89; \<open>window\<close> is \<^verbatim>\<open>window.speechSynthesis\<close>
  where the platform has it.
\<close>

definition initSpeechSynthesis :: "'n engine option \<Rightarrow> 'n app \<Rightarrow> 'n app" where
  "initSpeechSynthesis window s =
     (case window of
        Some e \<Rightarrow>
          let e1 = (if onvoiceschanged e \<noteq> None then e\<lparr>onvoiceschanged := Some True\<rparr> else e)
          in getVoices (s\<lparr>speechSynthesis := Some e1\<rparr>)
      | None \<Rightarrow> s\<lparr>error := ''Speech synthesis not supported in this browser''\<rparr>)"

text \<open>The \<^verbatim>\<open>onMounted\<close> hook, lines 23-42.\<close>

definition onMounted :: "'n js \<Rightarrow> 'n engine option \<Rightarrow> 'n app \<Rightarrow> 'n app" where
  "onMounted js window s =
     (let s1 = (case getItem ''wxt-speech-rate'' (localStorage s) of
                  Some savedRate \<Rightarrow> s\<lparr>speechRate := parseFloat js savedRate\<rparr>
                | None \<Rightarrow> s);
          s2 = (case getItem ''wxt-speech-pitch'' (localStorage s1) of
                  Some savedPitch \<Rightarrow> s1\<lparr>speechPitch := parseFloat js savedPitch\<rparr>
                | None \<Rightarrow> s1);
          s3 = (case getItem ''wxt-speech-voice'' (localStorage s2) of
                  Some savedVoice \<Rightarrow>
                    if savedVoice \<noteq> [] then s2\<lparr>speechVoice := savedVoice\<rparr> else s2
                | None \<Rightarrow> s2)
      in initSpeechSynthesis window s3)"

text \<open>
  The platform's \<^verbatim>\<open>voiceschanged\<close> notification: the engine has a new list of voices
  and calls the handler if the component installed it.
\<close>

definition voiceschanged :: "voice list \<Rightarrow> 'n app \<Rightarrow> 'n app" where
  "voiceschanged vs s =
     (case speechSynthesis s of
        None \<Rightarrow> s
      | Some e \<Rightarrow>
          let s1 = s\<lparr>speechSynthesis := Some (e\<lparr>eng_voices := vs\<rparr>)\<rparr>
          in if onvoiceschanged e = Some True then getVoices s1 else s1)"

section \<open>Extraction (lines 91-186)\<close>

text \<open>
  The object the injected function returns (lines 124, 147-154, 156): either only
  \<^verbatim>\<open>error\<close>, or the fields of the article. An absent field is \<open>None\<close>.
\<close>

record article =
  art_error :: "string option"
  art_title :: "string option"
  art_content :: "string option"
  art_segments :: "segment list option"
  art_url :: "string option"

text \<open>
  What the browser answers to one run of \<^verbatim>\<open>getPageContent\<close>: the tabs
  \<^verbatim>\<open>tabs.query\<close> resolves to (each with its \<^verbatim>\<open>id\<close>, if it has one) or what it
  rejects with; whether injecting \<^verbatim>\<open>readability.js\<close> rejects; the array of frame
  results \<^verbatim>\<open>executeScript\<close> resolves to (each with its \<^verbatim>\<open>result\<close>, if any) or what
  it rejects with; and the keys for which \<^verbatim>\<open>localStorage.setItem\<close> fails at lines
  174-176, each with what it throws.
\<close>

type_synonym tab = "int option"

record extract_env =
  tabs_query :: "caught + tab list"
  inject_readability :: "caught option"
  run_extractor :: "caught + article option list option"
  setItem_throws :: "(string \<times> caught) list"

text \<open>The \<^verbatim>\<open>try\<close> block up to the article, lines 98-167 and 177-179.\<close>

definition extract_article :: "extract_env \<Rightarrow> caught + article" where
  "extract_article env =
     (case tabs_query env of
        Inl err \<Rightarrow> Inl err
      | Inr tabs \<Rightarrow>
          (case tabs of
             [] \<Rightarrow> Inl (ErrorObject ''No active tab found'')
           | activeTab # _ \<Rightarrow>
               if activeTab = None \<or> activeTab = Some 0
               then Inl (ErrorObject ''No active tab found'')
               else
                 (case inject_readability env of
                    Some err \<Rightarrow> Inl err
                  | None \<Rightarrow>
                      (case run_extractor env of
                         Inl err \<Rightarrow> Inl err
                       | Inr result \<Rightarrow>
                           (case result of
                              Some (Some article # _) \<Rightarrow>
                                (case art_error article of
                                   Some e \<Rightarrow> if e \<noteq> [] then Inl (ErrorObject e) else Inr article
                                 | None \<Rightarrow> Inr article)
                            | _ \<Rightarrow> Inl (ErrorObject ''Failed to extract content''))))))"

text \<open>The message the \<^verbatim>\<open>catch\<close> block shows, line 182.\<close>

definition caught_message :: "caught \<Rightarrow> string" where
  "caught_message err =
     (case err of ErrorObject message \<Rightarrow> message | OtherValue \<Rightarrow> ''Unknown error occurred'')"

text \<open>\<^verbatim>\<open>setItem\<close> stores the string form of its argument.\<close>

definition stored :: "string option \<Rightarrow> string" where
  "stored v = (case v of Some str \<Rightarrow> str | None \<Rightarrow> ''undefined'')"

text \<open>
  \<^verbatim>\<open>getPageContent\<close> is asynchronous. Its writes to the state happen in two
  uninterrupted blocks: lines 93-96 before the first \<^verbatim>\<open>await\<close>, and the rest (lines
  162-185) once the browser has answered. An exception thrown after lines 169-171 is
  caught like any other, with the article already assigned.
\<close>

definition getPageContent_begin :: "'n app \<Rightarrow> 'n app" where
  "getPageContent_begin s =
     s\<lparr>isLoading := True, error := [], pageContent := Some [], contentSegments := []\<rparr>"

text \<open>A \<^verbatim>\<open>setItem\<close> of lines 174-176: it throws, or the store has the new entry.\<close>

definition try_setItem :: "extract_env \<Rightarrow> string \<Rightarrow> string \<Rightarrow> storage \<Rightarrow> caught + storage" where
  "try_setItem env k v st =
     (case map_of (setItem_throws env) k of
        Some err \<Rightarrow> Inl err
      | None \<Rightarrow> Inr (setItem k v st))"

text \<open>
  Lines 173-176. The three entries are written in turn; the first \<^verbatim>\<open>setItem\<close> that
  throws ends the block with the entries written so far in the store.
\<close>

definition store_article :: "extract_env \<Rightarrow> article \<Rightarrow> storage \<Rightarrow> storage \<times> caught option" where
  "store_article env article st =
     (case try_setItem env ''wxt-page-content'' (stored (art_content article)) st of
        Inl err \<Rightarrow> (st, Some err)
      | Inr st1 \<Rightarrow>
          (case try_setItem env ''wxt-page-title'' (stored (art_title article)) st1 of
             Inl err \<Rightarrow> (st1, Some err)
           | Inr st2 \<Rightarrow>
               (case try_setItem env ''wxt-page-url'' (stored (art_url article)) st2 of
                  Inl err \<Rightarrow> (st2, Some err)
                | Inr st3 \<Rightarrow> (st3, None))))"

definition getPageContent_finish :: "extract_env \<Rightarrow> 'n app \<Rightarrow> 'n app" where
  "getPageContent_finish env s =
     (case extract_article env of
        Inr article \<Rightarrow>
          let s1 = s\<lparr>pageTitle := art_title article,
                     pageContent := art_content article,
                     contentSegments :=
                       (case art_segments article of Some segs \<Rightarrow> segs | None \<Rightarrow> [])\<rparr>
          in (case store_article env article (localStorage s1) of
                (st, None) \<Rightarrow> s1\<lparr>localStorage := st, isLoading := False\<rparr>
              | (st, Some err) \<Rightarrow>
                  s1\<lparr>localStorage := st, error := caught_message err, isLoading := False\<rparr>)
      | Inl err \<Rightarrow>
          s\<lparr>error := caught_message err, isLoading := False\<rparr>)"

definition getPageContent :: "extract_env \<Rightarrow> 'n app \<Rightarrow> 'n app" where
  "getPageContent env s = getPageContent_finish env (getPageContent_begin s)"

section \<open>Runs of the popup\<close>

text \<open>
  Everything that can happen to the popup: the mount, a change of the voice list, a
  write to a setting from the controls, the two halves of an extraction, the five
  player buttons, and the two signals of the engine for the utterance in flight. An event
  whose handler may write a setting ends with the run of the watchers. The
  engine drops the utterance it signals for, then calls the handler. A signal may also
  arrive when the engine holds nothing, as some platforms send one for an utterance that
  was cancelled; the handler runs all the same.
\<close>

datatype 'n event =
    Mounted "'n engine option"
  | VoicesChanged "voice list"
  | SetRate 'n
  | SetPitch 'n
  | SetVoice string
  | ExtractBegin
  | ExtractFinish extract_env
  | Start
  | Stop
  | TogglePause
  | Next
  | Prev
  | UtteranceEnd
  | UtteranceError

definition dequeue :: "'n app \<Rightarrow> 'n app" where
  "dequeue s =
     (case speechSynthesis s of
        None \<Rightarrow> s
      | Some e \<Rightarrow> s\<lparr>speechSynthesis := Some (e\<lparr>queue := tl (queue e)\<rparr>)\<rparr>)"

fun step :: "'n js \<Rightarrow> 'n event \<Rightarrow> 'n app \<Rightarrow> thrown + 'n app" where
  "step js (Mounted window) s = Inr (flushWatchers js (onMounted js window s))"
| "step js (VoicesChanged vs) s = Inr (flushWatchers js (voiceschanged vs s))"
| "step js (SetRate v) s = Inr (flushWatchers js (s\<lparr>speechRate := v\<rparr>))"
| "step js (SetPitch v) s = Inr (flushWatchers js (s\<lparr>speechPitch := v\<rparr>))"
| "step js (SetVoice v) s = Inr (flushWatchers js (s\<lparr>speechVoice := v\<rparr>))"
| "step js ExtractBegin s = Inr (getPageContent_begin s)"
| "step js (ExtractFinish env) s = Inr (getPageContent_finish env s)"
| "step js Start s = startReading s"
| "step js Stop s = Inr (stopReading s)"
| "step js TogglePause s = Inr (togglePause s)"
| "step js Next s = nextSegment s"
| "step js Prev s = prevSegment s"
| "step js UtteranceEnd s = utterance_onend (dequeue s)"
| "step js UtteranceError s = Inr (utterance_onerror (dequeue s))"

text \<open>A run stops at the first uncaught exception.\<close>

fun run :: "'n js \<Rightarrow> 'n event list \<Rightarrow> 'n app \<Rightarrow> thrown + 'n app" where
  "run js [] s = Inr s"
| "run js (e # es) s = (case step js e s of Inl t \<Rightarrow> Inl t | Inr s' \<Rightarrow> run js es s')"

text \<open>The events of the segment player alone.\<close>

fun player_event :: "'n event \<Rightarrow> bool" where
  "player_event Start = True"
| "player_event Stop = True"
| "player_event TogglePause = True"
| "player_event Next = True"
| "player_event Prev = True"
| "player_event UtteranceEnd = True"
| "player_event UtteranceError = True"
| "player_event _ = False"

text \<open>The utterances the engine holds: none without an engine.\<close>

definition in_flight :: "'n app \<Rightarrow> 'n utterance list" where
  "in_flight s = (case speechSynthesis s of None \<Rightarrow> [] | Some e \<Rightarrow> queue e)"

section \<open>Notions used in the statements\<close>

text \<open>
  The condition every run from the initial state maintains: the index is not negative,
  and reading is on only with an engine.
\<close>

definition sane :: "'n app \<Rightarrow> bool" where
  "sane s \<longleftrightarrow> 0 \<le> currentSpeechIndex s \<and> (isReading s \<longrightarrow> speechSynthesis s \<noteq> None)"

text \<open>Reading is on only with a segment to read and an engine to read it.\<close>

definition playable :: "'n app \<Rightarrow> bool" where
  "playable s \<longleftrightarrow> (isReading s \<longrightarrow> contentSegments s \<noteq> [] \<and> speechSynthesis s \<noteq> None)"

text \<open>
  The index \<^verbatim>\<open>startReading\<close> begins at: the current one, or 0 when the current one is
  at or past the end (lines 204-206).
\<close>

definition start_index :: "'n app \<Rightarrow> nat" where
  "start_index s =
     (if currentSpeechIndex s \<ge> int (length (contentSegments s)) then 0
      else nat (currentSpeechIndex s))"

text \<open>
  \<open>reading_at s i s'\<close>: started from \<open>s\<close>, the player has arrived at index \<open>i\<close> in
  \<open>s'\<close>; inside the list it is reading and the engine holds exactly the utterance of
  segment \<open>i\<close>, at the end it has stopped and the engine holds nothing.
\<close>

definition reading_at :: "'n app \<Rightarrow> nat \<Rightarrow> 'n app \<Rightarrow> bool" where
  "reading_at s i s' \<longleftrightarrow>
     currentSpeechIndex s' = int i \<and>
     contentSegments s' = contentSegments s \<and> speechRate s' = speechRate s \<and>
     speechPitch s' = speechPitch s \<and> speechVoice s' = speechVoice s \<and>
     availableVoices s' = availableVoices s \<and>
     (if i < length (contentSegments s)
      then isReading s' \<and> in_flight s' = [utterance_of s (contentSegments s ! i)] \<and>
           speechSynthesis s' \<noteq> None
      else \<not> isReading s' \<and> in_flight s' = [])"

text \<open>Every watcher has seen the current value of its reference: nothing waits to be persisted.\<close>

definition settled :: "'n app \<Rightarrow> bool" where
  "settled s \<longleftrightarrow>
     watchedRate s = speechRate s \<and> watchedPitch s = speechPitch s \<and>
     watchedVoice s = speechVoice s"

text \<open>
  The store agrees with the rate: its entry parses to the rate, or it has no entry and the
  rate is the initial 1.
\<close>

definition rate_saved :: "'n js \<Rightarrow> ('n::one) app \<Rightarrow> bool" where
  "rate_saved js s \<longleftrightarrow>
     (case getItem ''wxt-speech-rate'' (localStorage s) of
        Some str \<Rightarrow> parseFloat js str = speechRate s
      | None \<Rightarrow> speechRate s = 1)"

text \<open>What the rate's watcher and the store hold of the rate.\<close>

definition rate_view :: "'n app \<Rightarrow> 'n \<times> 'n \<times> string option" where
  "rate_view s = (speechRate s, watchedRate s, getItem ''wxt-speech-rate'' (localStorage s))"

text \<open>A new session of the popup over a store: the popup as it opens, mounted.\<close>

definition reload :: "'n js \<Rightarrow> 'n engine option \<Rightarrow> storage \<Rightarrow> ('n::one) app" where
  "reload js window st = flushWatchers js (onMounted js window (init_app st))"

text \<open>What a user observes of the player: the reading flag, the index, the texts the engine
  holds, and the error slot.\<close>

definition observe :: "'n app \<Rightarrow> bool \<times> int \<times> string list \<times> string" where
  "observe s = (isReading s, currentSpeechIndex s, map utt_text (in_flight s), error s)"

subsection \<open>A concrete popup\<close>

text \<open>
  Three segments, an introduction, a heading and a body; an idle engine without voices;
  a browser that answers the extraction with these segments, one that has no active
  tab, one whose store is full and one that answers with a single segment. Numbers are
  rationals, with the platform's conversions given on the two values used, 1 and 1.3.
  \<open>scenario_app\<close> is the popup after its mount and one successful extraction.
\<close>

definition scenario_segments :: "segment list" where
  "scenario_segments =
     [\<lparr>seg_text = ''Intro'', seg_tag = ''p'', isPriority = False\<rparr>,
      \<lparr>seg_text = ''Heading'', seg_tag = ''h1'', isPriority = True\<rparr>,
      \<lparr>seg_text = ''Body'', seg_tag = ''p'', isPriority = False\<rparr>]"

definition scenario_engine :: "rat engine" where
  "scenario_engine = \<lparr>queue = [], paused = False, eng_voices = [], onvoiceschanged = Some False\<rparr>"

definition scenario_js :: "rat js" where
  "scenario_js =
     \<lparr>parseFloat = (\<lambda>str. if str = ''1.3'' then 13 / 10 else 1),
      toString = (\<lambda>v. if v = 13 / 10 then ''1.3'' else ''1'')\<rparr>"

definition scenario_article :: article where
  "scenario_article =
     \<lparr>art_error = None, art_title = Some ''Title'', art_content = Some ''<p>Intro</p>'',
      art_segments = Some scenario_segments, art_url = Some ''https://example.org/''\<rparr>"

definition scenario_env :: extract_env where
  "scenario_env =
     \<lparr>tabs_query = Inr [Some 1], inject_readability = None,
      run_extractor = Inr (Some [Some scenario_article]), setItem_throws = []\<rparr>"

definition no_tab_env :: extract_env where
  "no_tab_env =
     \<lparr>tabs_query = Inr [], inject_readability = None, run_extractor = Inr None,
      setItem_throws = []\<rparr>"

definition full_store_env :: extract_env where
  "full_store_env =
     scenario_env\<lparr>run_extractor :=
         Inr (Some [Some (scenario_article\<lparr>art_title := Some ''Other'',
            art_content := Some ''<p>Only</p>'',
            art_segments := Some [\<lparr>seg_text = ''Only'', seg_tag = ''p'', isPriority = False\<rparr>]\<rparr>)]),
       setItem_throws := [(''wxt-page-content'', ErrorObject ''QuotaExceededError'')]\<rparr>"

definition short_env :: extract_env where
  "short_env =
     scenario_env\<lparr>run_extractor :=
         Inr (Some [Some (scenario_article\<lparr>art_segments :=
            Some [\<lparr>seg_text = ''Only'', seg_tag = ''p'', isPriority = False\<rparr>]\<rparr>)])\<rparr>"

definition scenario_opening :: "rat event list" where
  "scenario_opening = [Mounted (Some scenario_engine), ExtractBegin, ExtractFinish scenario_env]"

definition scenario_app :: "rat app" where
  "scenario_app =
     getPageContent scenario_env
       (flushWatchers scenario_js (onMounted scenario_js (Some scenario_engine) (init_app [])))"

text \<open>The state a run of the concrete popup ends in (the popup untouched, had it thrown).\<close>

definition scenario_after :: "rat event list \<Rightarrow> rat app" where
  "scenario_after evs = (case run scenario_js evs scenario_app of Inr s \<Rightarrow> s | Inl _ \<Rightarrow> scenario_app)"

text \<open>The same segments loaded into a popup whose platform has no speech engine.\<close>

definition mute_app :: "rat app" where
  "mute_app =
     getPageContent scenario_env (flushWatchers scenario_js (onMounted scenario_js None (init_app [])))"

section \<open>Every run keeps the index non-negative and never throws\<close>

lemma speakCurrentSegment_sane:
  assumes "sane s"
  shows "\<exists>s'. speakCurrentSegment s = Inr s' \<and> sane s'"
  using assms by (auto simp: speakCurrentSegment_def sane_def Let_def split: option.splits)

lemma stopReading_sane: "sane s \<Longrightarrow> sane (stopReading s)"
  by (auto simp: stopReading_def sane_def split: option.splits)

lemma startReading_sane:
  assumes "sane s"
  shows "\<exists>s'. startReading s = Inr s' \<and> sane s'"
proof -
  consider "contentSegments s = []" | "contentSegments s \<noteq> []" "speechSynthesis s = None"
    | e where "contentSegments s \<noteq> []" "speechSynthesis s = Some e" by (cases "speechSynthesis s") auto
  then show ?thesis
  proof cases
    case 1 then show ?thesis using assms by (simp add: startReading_def sane_def)
  next
    case 2 then show ?thesis using assms by (simp add: startReading_def sane_def)
  next
    case 3
    let ?s1 = "stopReading s"
    let ?s2 = "if currentSpeechIndex ?s1 \<ge> int (length (contentSegments ?s1)) then ?s1\<lparr>currentSpeechIndex := 0\<rparr> else ?s1"
    have "sane (?s2\<lparr>isReading := True\<rparr>)"
      using assms 3 by (auto simp: sane_def stopReading_def)
    from speakCurrentSegment_sane[OF this] show ?thesis using 3
      by (simp add: startReading_def Let_def)
  qed
qed

lemma utterance_onend_sane:
  assumes "sane s" shows "\<exists>s'. utterance_onend s = Inr s' \<and> sane s'"
  unfolding utterance_onend_def
  by (rule speakCurrentSegment_sane) (use assms in \<open>auto simp: sane_def\<close>)

lemma nextSegment_sane:
  assumes "sane s" shows "\<exists>s'. nextSegment s = Inr s' \<and> sane s'"
proof (cases "isReading s")
  case False then show ?thesis using assms by (simp add: nextSegment_def)
next
  case True
  have "sane ((stopReading s)\<lparr>currentSpeechIndex := currentSpeechIndex (stopReading s) + 1\<rparr>)"
    using stopReading_sane[OF assms] by (auto simp: sane_def)
  from startReading_sane[OF this] show ?thesis using True by (simp add: nextSegment_def Let_def)
qed


lemma startReading_total:
  assumes "0 \<le> currentSpeechIndex s"
  shows "\<exists>s'. startReading s = Inr s' \<and> 0 \<le> currentSpeechIndex s'"
  using assms
  by (auto simp: startReading_def speakCurrentSegment_def stopReading_def Let_def split: option.splits)

lemma sane_init: "sane (init_app st :: ('n::one) app)"
  by (simp add: sane_def init_app_def)

lemma getVoices_sane: "sane s \<Longrightarrow> sane (getVoices s)"
  by (auto simp: getVoices_def sane_def Let_def split: option.splits)

lemma flushWatchers_sane: "sane s \<Longrightarrow> sane (flushWatchers js s)"
  by (simp add: sane_def flushWatchers_def Let_def)

lemma initSpeechSynthesis_sane: "sane s \<Longrightarrow> sane (initSpeechSynthesis w s)"
proof (cases w)
  case None then show "sane s \<Longrightarrow> ?thesis" by (simp add: initSpeechSynthesis_def sane_def)
next
  case (Some e)
  assume "sane s"
  then have "sane (s\<lparr>speechSynthesis := Some (if onvoiceschanged e \<noteq> None then e\<lparr>onvoiceschanged := Some True\<rparr> else e)\<rparr>)"
    by (simp add: sane_def)
  from getVoices_sane[OF this] show ?thesis using Some by (simp add: initSpeechSynthesis_def Let_def)
qed

lemma onMounted_sane: "sane s \<Longrightarrow> sane (onMounted js w s)"
  unfolding onMounted_def Let_def
  by (intro initSpeechSynthesis_sane)
     (simp add: sane_def split: option.splits)

lemma voiceschanged_sane: "sane s \<Longrightarrow> sane (voiceschanged vs s)"
proof (cases "speechSynthesis s")
  case None then show "sane s \<Longrightarrow> ?thesis" by (simp add: voiceschanged_def)
next
  case (Some e)
  assume "sane s"
  then have *: "sane (s\<lparr>speechSynthesis := Some (e\<lparr>eng_voices := vs\<rparr>)\<rparr>)" by (simp add: sane_def)
  show ?thesis using Some * getVoices_sane[OF *] by (simp add: voiceschanged_def Let_def)
qed

lemma prevSegment_sane:
  assumes "sane s" shows "\<exists>s'. prevSegment s = Inr s' \<and> sane s'"
proof (cases "isReading s")
  case False then show ?thesis using assms by (simp add: prevSegment_def)
next
  case True
  have "sane ((stopReading s)\<lparr>currentSpeechIndex := max 0 (currentSpeechIndex (stopReading s) - 1)\<rparr>)"
    using stopReading_sane[OF assms] by (auto simp: sane_def)
  from startReading_sane[OF this] show ?thesis using True by (simp add: prevSegment_def Let_def)
qed

lemma getPageContent_finish_sane: "sane s \<Longrightarrow> sane (getPageContent_finish env s)"
  by (cases "extract_article env")
     (simp_all add: sane_def getPageContent_finish_def Let_def split: prod.splits option.splits)

lemma dequeue_sane: "sane s \<Longrightarrow> sane (dequeue s)"
  by (cases "speechSynthesis s") (simp_all add: sane_def dequeue_def)

lemma togglePause_sane: "sane s \<Longrightarrow> sane (togglePause s)"
  by (cases "speechSynthesis s") (simp_all add: sane_def togglePause_def)

lemma step_sane:
  assumes "sane s"
  shows "\<exists>s'. step js e s = Inr s' \<and> sane s'"
proof (cases e)
  case (Mounted w)
  then show ?thesis using flushWatchers_sane[OF onMounted_sane[OF assms]] by simp
next
  case (VoicesChanged vs)
  then show ?thesis using flushWatchers_sane[OF voiceschanged_sane[OF assms]] by simp
next
  case (SetRate v)
  from assms have "sane (s\<lparr>speechRate := v\<rparr>)" by (simp add: sane_def)
  from flushWatchers_sane[OF this] show ?thesis using SetRate by simp
next
  case (SetPitch v)
  from assms have "sane (s\<lparr>speechPitch := v\<rparr>)" by (simp add: sane_def)
  from flushWatchers_sane[OF this] show ?thesis using SetPitch by simp
next
  case (SetVoice v)
  from assms have "sane (s\<lparr>speechVoice := v\<rparr>)" by (simp add: sane_def)
  from flushWatchers_sane[OF this] show ?thesis using SetVoice by simp
next
  case ExtractBegin then show ?thesis using assms by (simp add: sane_def getPageContent_begin_def)
next
  case (ExtractFinish env) then show ?thesis using getPageContent_finish_sane[OF assms] by simp
next
  case Start then show ?thesis using startReading_sane[OF assms] by simp
next
  case Stop then show ?thesis using stopReading_sane[OF assms] by simp
next
  case TogglePause then show ?thesis using togglePause_sane[OF assms] by simp
next
  case Next then show ?thesis using nextSegment_sane[OF assms] by simp
next
  case Prev then show ?thesis using prevSegment_sane[OF assms] by simp
next
  case UtteranceEnd
  from utterance_onend_sane[OF dequeue_sane[OF assms]] show ?thesis using UtteranceEnd by simp
next
  case UtteranceError then show ?thesis using dequeue_sane[OF assms]
    by (simp add: sane_def utterance_onerror_def)
qed

lemma run_sane:
  "sane s \<Longrightarrow> \<exists>s'. run js evs s = Inr s' \<and> sane s'"
proof (induction evs arbitrary: s)
  case Nil then show ?case by simp
next
  case (Cons e evs)
  from step_sane[OF Cons.prems] obtain s1 where "step js e s = Inr s1" "sane s1" by blast
  with Cons.IH[of s1] show ?case by simp
qed

lemma run_init_sane: "\<exists>s'. run js evs (init_app st :: ('n::one) app) = Inr s' \<and> sane s'"
  by (rule run_sane) (rule sane_init)

lemma run_append:
  "run js (xs @ ys) s = (case run js xs s of Inl t \<Rightarrow> Inl t | Inr s' \<Rightarrow> run js ys s')"
  by (induction xs arbitrary: s) (auto split: sum.splits)

section \<open>Facts about the concrete popup\<close>

lemmas scenario_defs = scenario_app_def scenario_env_def scenario_article_def scenario_js_def
  scenario_engine_def scenario_segments_def init_app_def getPageContent_def
  getPageContent_begin_def getPageContent_finish_def extract_article_def onMounted_def
  initSpeechSynthesis_def getVoices_def getItem_def setItem_def stored_def flushWatchers_def
  store_article_def try_setItem_def

lemma scenario_app_fields:
  "contentSegments scenario_app = scenario_segments"
  "speechSynthesis scenario_app = Some (scenario_engine\<lparr>onvoiceschanged := Some True\<rparr>)"
  "currentSpeechIndex scenario_app = 0"
  "isReading scenario_app = False"
  "error scenario_app = []"
  "pageTitle scenario_app = Some ''Title''"
  "pageContent scenario_app = Some ''<p>Intro</p>''"
  by (simp_all add: scenario_defs)

lemma scenario_opening_run: "run scenario_js scenario_opening (init_app []) = Inr scenario_app"
  by (simp add: scenario_opening_def scenario_app_def getPageContent_def)

lemma scenario_start_index: "start_index scenario_app = 0"
  by (simp add: start_index_def scenario_app_fields)

lemma scenario_length: "length (contentSegments scenario_app) = 3"
  by (simp add: scenario_app_fields scenario_segments_def)

lemma no_tab_env_fails: "extract_article no_tab_env = Inl (ErrorObject ''No active tab found'')"
  by (simp add: extract_article_def no_tab_env_def)

text \<open>The popup while it reads the heading, and while it reads the body, its last segment.\<close>

lemma reading_heading:
  "run scenario_js [Start, UtteranceEnd] scenario_app = Inr (scenario_after [Start, UtteranceEnd])"
  "observe (scenario_after [Start, UtteranceEnd]) = (True, 1, [''Heading''], [])"
  "contentSegments (scenario_after [Start, UtteranceEnd]) = scenario_segments"
  "speechSynthesis (scenario_after [Start, UtteranceEnd]) \<noteq> None"
  by code_simp+

lemma reading_body:
  "observe (scenario_after [Start, UtteranceEnd, UtteranceEnd]) = (True, 2, [''Body''], [])"
  "contentSegments (scenario_after [Start, UtteranceEnd, UtteranceEnd]) = scenario_segments"
  "speechSynthesis (scenario_after [Start, UtteranceEnd, UtteranceEnd]) \<noteq> None"
  by code_simp+

lemma observe_fields:
  "observe s = (r, i, ts, m) \<Longrightarrow>
     isReading s = r \<and> currentSpeechIndex s = i \<and> map utt_text (in_flight s) = ts \<and> error s = m"
  by (simp add: observe_def)

section \<open>C1: reading through the list\<close>

lemma startReading_reading_at:
  assumes "contentSegments s \<noteq> []" "speechSynthesis s = Some e" "0 \<le> currentSpeechIndex s"
  shows "\<exists>s'. startReading s = Inr s' \<and> reading_at s (start_index s) s'"
  using assms
  by (auto simp: startReading_def speakCurrentSegment_def stopReading_def Let_def reading_at_def
      start_index_def in_flight_def speak_def cancel_def utterance_of_def selectedVoice_def)

lemma onend_reading_at:
  assumes "reading_at s i s1" "i < length (contentSegments s)"
  shows "\<exists>s2. step js UtteranceEnd s1 = Inr s2 \<and> reading_at s (Suc i) s2"
proof -
  from assms obtain e where
    e: "speechSynthesis s1 = Some e" "queue e = [utterance_of s (contentSegments s ! i)]"
    by (auto simp: reading_at_def in_flight_def split: option.splits)
  have [simp]: "nat (int i + 1) = Suc i" by simp
  show ?thesis using assms e
    by (auto simp: utterance_onend_def dequeue_def speakCurrentSegment_def Let_def reading_at_def
         in_flight_def speak_def utterance_of_def selectedVoice_def)
qed

lemma run_reading_at:
  assumes "contentSegments s \<noteq> []" "speechSynthesis s = Some e" "0 \<le> currentSpeechIndex s"
  shows "start_index s + k \<le> length (contentSegments s) \<Longrightarrow>
         \<exists>s'. run js (Start # replicate k UtteranceEnd) s = Inr s' \<and>
              reading_at s (start_index s + k) s'"
proof (induction k)
  case 0
  then show ?case using startReading_reading_at[OF assms] by auto
next
  case (Suc k)
  then obtain s1 where s1: "run js (Start # replicate k UtteranceEnd) s = Inr s1"
      "reading_at s (start_index s + k) s1" by auto
  from Suc.prems have "start_index s + k < length (contentSegments s)" by simp
  from onend_reading_at[OF s1(2) this] obtain s2 where
    s2: "step js UtteranceEnd s1 = Inr s2" "reading_at s (Suc (start_index s + k)) s2" by blast
  have "Start # replicate (Suc k) UtteranceEnd = (Start # replicate k UtteranceEnd) @ [UtteranceEnd]"
    by (simp add: replicate_append_same)
  then have "run js (Start # replicate (Suc k) UtteranceEnd) s =
      run js ((Start # replicate k UtteranceEnd) @ [UtteranceEnd]) s" by (rule arg_cong)
  also have "\<dots> = Inr s2" unfolding run_append s1(1) using s2(1) by simp
  finally have "run js (Start # replicate (Suc k) UtteranceEnd) s = Inr s2" .
  then show ?case using s2(2) by auto
qed

text \<open>
  C1. Let the segment list be non-empty, an engine be present and the index not be
  negative. After \<^verbatim>\<open>start()\<close> and \<open>k\<close> completions signalled by the engine, the index
  is the starting index plus \<open>k\<close> (one more per completion). While that is inside the
  list the player is reading and the engine holds exactly one utterance, whose text is the
  text of the segment at that index and whose rate and pitch are the current settings, so
  the segments are spoken one at a time in list order; once it reaches the
  length of the list the player has stopped, the engine holds nothing and the index equals
  the length. The starting index is the current index, or 0 when the current index is at
  or past the end; from index 0 the whole list is read.
\<close>

theorem start_reads_every_segment_in_order:
  assumes "contentSegments s \<noteq> []" and "speechSynthesis s = Some e"
    and "0 \<le> currentSpeechIndex s"
    and "start_index s + k \<le> length (contentSegments s)"
  shows "\<exists>s'. run js (Start # replicate k UtteranceEnd) s = Inr s' \<and>
           currentSpeechIndex s' = int (start_index s + k) \<and>
           (if start_index s + k < length (contentSegments s)
            then isReading s' \<and>
                 in_flight s' = [utterance_of s (contentSegments s ! (start_index s + k))] \<and>
                 map utt_text (in_flight s') = [seg_text (contentSegments s ! (start_index s + k))] \<and>
                 map utt_rate (in_flight s') = [speechRate s] \<and>
                 map utt_pitch (in_flight s') = [speechPitch s]
            else \<not> isReading s' \<and> in_flight s' = [] \<and>
                 currentSpeechIndex s' = int (length (contentSegments s)))"
proof -
  from run_reading_at[OF assms] obtain s' where
    "run js (Start # replicate k UtteranceEnd) s = Inr s'" "reading_at s (start_index s + k) s'"
    by blast
  then show ?thesis using assms(4) by (auto simp: reading_at_def utterance_of_def)
qed

text \<open>
  The scenario of the three segments: the engine is handed the introduction at index 0,
  the heading at 1, the body at 2, and after the third completion the player has stopped
  at 3.
\<close>

theorem start_reads_every_segment_in_order_witness:
  "contentSegments scenario_app \<noteq> [] \<and>
   speechSynthesis scenario_app = Some (scenario_engine\<lparr>onvoiceschanged := Some True\<rparr>) \<and>
   0 \<le> currentSpeechIndex scenario_app \<and>
   start_index scenario_app + 3 \<le> length (contentSegments scenario_app) \<and>
   (\<exists>s'. run scenario_js (Start # replicate 0 UtteranceEnd) scenario_app = Inr s' \<and>
      currentSpeechIndex s' = 0 \<and> isReading s' \<and> map utt_text (in_flight s') = [''Intro'']) \<and>
   (\<exists>s'. run scenario_js (Start # replicate 1 UtteranceEnd) scenario_app = Inr s' \<and>
      currentSpeechIndex s' = 1 \<and> isReading s' \<and> map utt_text (in_flight s') = [''Heading'']) \<and>
   (\<exists>s'. run scenario_js (Start # replicate 2 UtteranceEnd) scenario_app = Inr s' \<and>
      currentSpeechIndex s' = 2 \<and> isReading s' \<and> map utt_text (in_flight s') = [''Body'']) \<and>
   (\<exists>s'. run scenario_js (Start # replicate 3 UtteranceEnd) scenario_app = Inr s' \<and>
      currentSpeechIndex s' = 3 \<and> \<not> isReading s' \<and> in_flight s' = [])"
proof -
  let ?e = "scenario_engine\<lparr>onvoiceschanged := Some True\<rparr>"
  note f = scenario_app_fields scenario_start_index scenario_length
  have a: "contentSegments scenario_app \<noteq> []" "speechSynthesis scenario_app = Some ?e"
    "0 \<le> currentSpeechIndex scenario_app"
    by (simp_all add: scenario_app_fields scenario_segments_def)
  have b: "start_index scenario_app + 0 \<le> length (contentSegments scenario_app)"
    "start_index scenario_app + 1 \<le> length (contentSegments scenario_app)"
    "start_index scenario_app + 2 \<le> length (contentSegments scenario_app)"
    "start_index scenario_app + 3 \<le> length (contentSegments scenario_app)"
    by (simp_all add: scenario_start_index scenario_length)
  have k0: "\<exists>s'. run scenario_js (Start # replicate 0 UtteranceEnd) scenario_app = Inr s' \<and>
      currentSpeechIndex s' = 0 \<and> isReading s' \<and> map utt_text (in_flight s') = [''Intro'']"
    using start_reads_every_segment_in_order [OF a b(1), of scenario_js]
    by (auto simp: f scenario_segments_def)
  have k1: "\<exists>s'. run scenario_js (Start # replicate 1 UtteranceEnd) scenario_app = Inr s' \<and>
      currentSpeechIndex s' = 1 \<and> isReading s' \<and> map utt_text (in_flight s') = [''Heading'']"
    using start_reads_every_segment_in_order [OF a b(2), of scenario_js]
    by (auto simp: f scenario_segments_def)
  have k2: "\<exists>s'. run scenario_js (Start # replicate 2 UtteranceEnd) scenario_app = Inr s' \<and>
      currentSpeechIndex s' = 2 \<and> isReading s' \<and> map utt_text (in_flight s') = [''Body'']"
    using start_reads_every_segment_in_order [OF a b(3), of scenario_js]
    by (auto simp: f scenario_segments_def)
  have k3: "\<exists>s'. run scenario_js (Start # replicate 3 UtteranceEnd) scenario_app = Inr s' \<and>
      currentSpeechIndex s' = 3 \<and> \<not> isReading s' \<and> in_flight s' = []"
    using start_reads_every_segment_in_order [OF a b(4), of scenario_js]
    by (auto simp: f scenario_segments_def)
  from a b(4) k0 k1 k2 k3 show ?thesis by blast
qed

section \<open>C2: next on the last segment\<close>

text \<open>
  While the body, the last of the three segments, is being read, \<^verbatim>\<open>next()\<close> leaves the
  player reading, at index 0, with the introduction handed to the engine: playback has not
  halted and the index has wrapped inside \<^verbatim>\<open>next()\<close>.
\<close>

theorem next_at_last_segment_counterexample:
  "map_sum id observe (run scenario_js [Start, UtteranceEnd, UtteranceEnd, Next] scenario_app)
     = Inr (True, 0, [''Intro''], [])"
  by code_simp

text \<open>
  C2, amended. If \<^verbatim>\<open>next()\<close> is called while the last segment is being read (index
  = length - 1, engine present), the index is advanced to the length and the restart inside
  \<^verbatim>\<open>next()\<close> resets it to 0 at once: \<^verbatim>\<open>next()\<close> returns with the player reading, the
  index 0 and the utterance of the first segment handed to the engine.
\<close>

theorem next_at_last_segment_wraps:
  assumes "isReading s" and "speechSynthesis s = Some e"
    and "contentSegments s \<noteq> []"
    and "currentSpeechIndex s = int (length (contentSegments s)) - 1"
  shows "\<exists>s'. nextSegment s = Inr s' \<and> isReading s' \<and> currentSpeechIndex s' = 0 \<and>
           in_flight s' = [utterance_of s (contentSegments s ! 0)]"
  using assms
  by (auto simp: nextSegment_def startReading_def speakCurrentSegment_def stopReading_def Let_def
      in_flight_def speak_def cancel_def utterance_of_def selectedVoice_def)

theorem next_at_last_segment_wraps_witness:
  "isReading (scenario_after [Start, UtteranceEnd, UtteranceEnd]) \<and>
   speechSynthesis (scenario_after [Start, UtteranceEnd, UtteranceEnd]) \<noteq> None \<and>
   contentSegments (scenario_after [Start, UtteranceEnd, UtteranceEnd]) \<noteq> [] \<and>
   currentSpeechIndex (scenario_after [Start, UtteranceEnd, UtteranceEnd]) =
     int (length (contentSegments (scenario_after [Start, UtteranceEnd, UtteranceEnd]))) - 1 \<and>
   (\<exists>s'. nextSegment (scenario_after [Start, UtteranceEnd, UtteranceEnd]) = Inr s' \<and>
      isReading s' \<and> currentSpeechIndex s' = 0 \<and> map utt_text (in_flight s') = [''Intro''])"
proof -
  let ?s = "scenario_after [Start, UtteranceEnd, UtteranceEnd]"
  from reading_body(3) obtain e where e: "speechSynthesis ?s = Some e" by blast
  have f: "isReading ?s" "currentSpeechIndex ?s = 2"
    using observe_fields[OF reading_body(1)] by simp_all
  have h: "contentSegments ?s \<noteq> []" "currentSpeechIndex ?s = int (length (contentSegments ?s)) - 1"
    by (simp_all add: f reading_body(2) scenario_segments_def)
  from next_at_last_segment_wraps [OF f(1) e h] obtain s' where
    "nextSegment ?s = Inr s'" "isReading s'" "currentSpeechIndex s' = 0"
    "in_flight s' = [utterance_of ?s (contentSegments ?s ! 0)]" by blast
  then show ?thesis using f h reading_body(3)
    by (auto simp: reading_body(2) scenario_segments_def utterance_of_def)
qed

section \<open>C3: a failed extraction\<close>

text \<open>The causes of a failed extraction, each leading to the \<^verbatim>\<open>catch\<close> block.\<close>

lemma extraction_failures:
  "tabs_query env = Inr [] \<Longrightarrow> extract_article env = Inl (ErrorObject ''No active tab found'')"
  "tabs_query env = Inr (Some i # ts) \<Longrightarrow> i \<noteq> 0 \<Longrightarrow> inject_readability env = Some err \<Longrightarrow>
     extract_article env = Inl err"
  "tabs_query env = Inr (Some i # ts) \<Longrightarrow> i \<noteq> 0 \<Longrightarrow> inject_readability env = None \<Longrightarrow>
     run_extractor env = Inr (Some (Some a # rs)) \<Longrightarrow> art_error a = Some m \<Longrightarrow> m \<noteq> [] \<Longrightarrow>
     extract_article env = Inl (ErrorObject m)"
  by (simp_all add: extract_article_def)

text \<open>
  With the three segments and their page content loaded, an extraction that finds no
  active tab leaves the segment list and the page content empty: they do not hold their
  prior values.
\<close>

theorem failed_extraction_counterexample:
  "extract_article no_tab_env = Inl (ErrorObject ''No active tab found'') \<and>
   contentSegments scenario_app = scenario_segments \<and>
   contentSegments (getPageContent no_tab_env scenario_app) = [] \<and>
   contentSegments (getPageContent no_tab_env scenario_app) \<noteq> contentSegments scenario_app \<and>
   pageContent scenario_app = Some ''<p>Intro</p>'' \<and>
   pageContent (getPageContent no_tab_env scenario_app) = Some []"
  by (simp add: scenario_defs no_tab_env_def)

text \<open>
  C3, amended. If an extraction request fails before its result is assigned at line 169
  (no active tab, a rejected query or injection, no usable result, or an error reported by
  the extractor), the error slot holds the failure's message, the loading flag is off, the
  page content is the empty string and the segment list is empty, both cleared when the
  request began; everything else, the title included, holds the value it had before.
\<close>

theorem failed_extraction_clears_content:
  assumes "extract_article env = Inl err"
  shows "getPageContent env s =
           s\<lparr>isLoading := False, error := caught_message err, pageContent := Some [],
             contentSegments := []\<rparr>"
  using assms
  by (simp add: getPageContent_def getPageContent_begin_def getPageContent_finish_def)

theorem failed_extraction_clears_content_witness:
  "extract_article no_tab_env = Inl (ErrorObject ''No active tab found'') \<and>
   getPageContent no_tab_env scenario_app =
     scenario_app\<lparr>isLoading := False, error := ''No active tab found'', pageContent := Some [],
       contentSegments := []\<rparr> \<and>
   pageTitle (getPageContent no_tab_env scenario_app) = Some ''Title''"
  using no_tab_env_fails failed_extraction_clears_content [OF no_tab_env_fails, of scenario_app]
  by (simp add: caught_message_def scenario_app_fields)

text \<open>
  A failure of the store at lines 174-176 is not such a failure: it is caught with the new
  article already assigned, so the title, the content and the segments are the new ones.
\<close>

lemma failed_store_keeps_article:
  assumes "extract_article env = Inr article"
    and "store_article env article (localStorage s) = (st, Some err)"
  shows "getPageContent env s =
           s\<lparr>pageTitle := art_title article, pageContent := art_content article,
             contentSegments := (case art_segments article of Some segs \<Rightarrow> segs | None \<Rightarrow> []),
             localStorage := st, error := caught_message err, isLoading := False\<rparr>"
  using assms
  by (simp add: getPageContent_def getPageContent_begin_def getPageContent_finish_def Let_def)

lemma full_store_extraction:
  "error (getPageContent full_store_env scenario_app) = ''QuotaExceededError'' \<and>
   pageTitle (getPageContent full_store_env scenario_app) = Some ''Other'' \<and>
   pageContent (getPageContent full_store_env scenario_app) = Some ''<p>Only</p>'' \<and>
   map seg_text (contentSegments (getPageContent full_store_env scenario_app)) = [''Only'']"
  by code_simp

section \<open>C4: an utterance error, then start\<close>

lemma failed_at_heading:
  "observe (scenario_after [Start, UtteranceEnd, UtteranceError])
     = (False, 1, [], ''Error during speech synthesis'')"
  "contentSegments (scenario_after [Start, UtteranceEnd, UtteranceError]) = scenario_segments"
  "speechSynthesis (scenario_after [Start, UtteranceEnd, UtteranceError]) \<noteq> None"
  by code_simp+

text \<open>
  The engine reports an error while the heading, segment 1 of the three, is being read;
  \<^verbatim>\<open>start()\<close> then reads the heading again, at index 1, not the introduction at 0.
\<close>

theorem start_after_utterance_error_counterexample:
  "map_sum id observe
     (run scenario_js [Start, UtteranceEnd, UtteranceError, Start] scenario_app)
     = Inr (True, 1, [''Heading''], ''Error during speech synthesis'')"
  by code_simp

text \<open>
  C4, amended. When the engine signals an utterance error while the index is inside the
  list, the player halts (the reading flag is off), the error slot holds \<open>Error during
  speech synthesis\<close> and the index is preserved; a subsequent \<^verbatim>\<open>start()\<close> resumes at
  the preserved index: the player is reading again, the index is unchanged and the engine
  holds the utterance of the segment at that index.
\<close>

theorem utterance_error_then_start_resumes:
  assumes "speechSynthesis s = Some e" and "0 \<le> currentSpeechIndex s"
    and "currentSpeechIndex s < int (length (contentSegments s))"
  shows "\<exists>s1 s2. step js UtteranceError s = Inr s1 \<and> \<not> isReading s1 \<and>
           error s1 = ''Error during speech synthesis'' \<and>
           currentSpeechIndex s1 = currentSpeechIndex s \<and>
           startReading s1 = Inr s2 \<and> isReading s2 \<and>
           currentSpeechIndex s2 = currentSpeechIndex s \<and>
           in_flight s2 = [utterance_of s (contentSegments s ! nat (currentSpeechIndex s))]"
  using assms
  by (auto simp: utterance_onerror_def dequeue_def startReading_def speakCurrentSegment_def
      stopReading_def Let_def in_flight_def speak_def cancel_def utterance_of_def selectedVoice_def)

theorem utterance_error_then_start_resumes_witness:
  "speechSynthesis (scenario_after [Start, UtteranceEnd]) \<noteq> None \<and>
   0 \<le> currentSpeechIndex (scenario_after [Start, UtteranceEnd]) \<and>
   currentSpeechIndex (scenario_after [Start, UtteranceEnd])
     < int (length (contentSegments (scenario_after [Start, UtteranceEnd]))) \<and>
   (\<exists>s1 s2. step scenario_js UtteranceError (scenario_after [Start, UtteranceEnd]) = Inr s1 \<and>
      \<not> isReading s1 \<and> currentSpeechIndex s1 = 1 \<and>
      startReading s1 = Inr s2 \<and> isReading s2 \<and> currentSpeechIndex s2 = 1 \<and>
      map utt_text (in_flight s2) = [''Heading''])"
proof -
  let ?s = "scenario_after [Start, UtteranceEnd]"
  from reading_heading(4) obtain e where e: "speechSynthesis ?s = Some e" by blast
  have f: "currentSpeechIndex ?s = 1"
    using observe_fields[OF reading_heading(2)] by simp
  have h: "0 \<le> currentSpeechIndex ?s" "currentSpeechIndex ?s < int (length (contentSegments ?s))"
    by (simp_all add: f reading_heading(3) scenario_segments_def)
  from utterance_error_then_start_resumes [OF e h, of scenario_js] obtain s1 s2 where
    "step scenario_js UtteranceError ?s = Inr s1" "\<not> isReading s1"
    "currentSpeechIndex s1 = currentSpeechIndex ?s" "startReading s1 = Inr s2" "isReading s2"
    "currentSpeechIndex s2 = currentSpeechIndex ?s"
    "in_flight s2 = [utterance_of ?s (contentSegments ?s ! nat (currentSpeechIndex ?s))]"
    by blast
  then show ?thesis using h reading_heading(4)
    by (auto simp: f reading_heading(3) scenario_segments_def utterance_of_def)
qed

section \<open>C5: the error slot\<close>

text \<open>
  After an utterance error on the first segment, \<^verbatim>\<open>start()\<close> succeeds, the player
  reads the introduction again, and the error slot still holds the old message.
\<close>

theorem start_keeps_error_counterexample:
  "map_sum id observe (run scenario_js [Start, UtteranceError, Start] scenario_app)
     = Inr (True, 0, [''Intro''], ''Error during speech synthesis'')"
  by code_simp

text \<open>
  C5, amended. Whatever the error slot holds, an extraction empties it in its first block
  of writes (after raising the loading flag, before any request to the browser). A start
  of playback never empties it: when \<^verbatim>\<open>start()\<close> goes ahead the slot keeps what it
  held, and when \<^verbatim>\<open>start()\<close> refuses the slot holds the refusal's message.
\<close>

theorem error_slot_cleared_by_extraction_only:
  "error (getPageContent_begin s) = [] \<and>
   (\<forall>s'. startReading s = Inr s' \<longrightarrow>
      error s' = (if contentSegments s = [] then ''No content to read''
                  else if speechSynthesis s = None then ''Speech synthesis not available''
                  else error s))"
  by (auto simp: getPageContent_begin_def startReading_def speakCurrentSegment_def
      stopReading_def Let_def split: option.splits if_splits)

theorem error_slot_cleared_by_extraction_only_witness:
  "error (scenario_after [Start, UtteranceEnd, UtteranceError]) = ''Error during speech synthesis'' \<and>
   error (getPageContent_begin (scenario_after [Start, UtteranceEnd, UtteranceError])) = [] \<and>
   (\<exists>s'. startReading (scenario_after [Start, UtteranceEnd, UtteranceError]) = Inr s' \<and>
      error s' = ''Error during speech synthesis'')"
proof -
  let ?s = "scenario_after [Start, UtteranceEnd, UtteranceError]"
  have f: "error ?s = ''Error during speech synthesis''" "currentSpeechIndex ?s = 1"
    using observe_fields[OF failed_at_heading(1)] by simp_all
  from startReading_total[of ?s] f(2) obtain s' where s': "startReading ?s = Inr s'" by auto
  have "contentSegments ?s \<noteq> []" by (simp add: failed_at_heading(2) scenario_segments_def)
  then show ?thesis
    using error_slot_cleared_by_extraction_only [of ?s] s' f(1) failed_at_heading(3) by auto
qed

section \<open>C6: the index is never negative\<close>

lemma prevSegment_exact:
  "\<exists>s'. prevSegment s = Inr s' \<and>
     (if isReading s
      then currentSpeechIndex s' =
             (if contentSegments s \<noteq> [] \<and> speechSynthesis s \<noteq> None \<and>
                 max 0 (currentSpeechIndex s - 1) \<ge> int (length (contentSegments s))
              then 0 else max 0 (currentSpeechIndex s - 1))
      else s' = s)"
  by (auto simp: prevSegment_def startReading_def speakCurrentSegment_def stopReading_def Let_def
      split: option.splits)

text \<open>
  \<^verbatim>\<open>previous()\<close> does not decrement the index in every state. Stopped at the body,
  index 2, it leaves the index at 2. And while the body is being read at index 2, after an
  extraction has replaced the list by a list of one segment, it takes the index to 0, not
  to 1, and that one segment is read.
\<close>

theorem previous_in_any_state_counterexample:
  "map_sum id observe (run scenario_js [Start, UtteranceEnd, UtteranceEnd, Stop] scenario_app)
     = Inr (False, 2, [], []) \<and>
   map_sum id observe (run scenario_js [Start, UtteranceEnd, UtteranceEnd, Stop, Prev] scenario_app)
     = Inr (False, 2, [], []) \<and>
   map_sum id observe
     (run scenario_js [Start, UtteranceEnd, UtteranceEnd, ExtractBegin, ExtractFinish short_env]
        scenario_app)
     = Inr (True, 2, [''Body''], []) \<and>
   map_sum id observe
     (run scenario_js [Start, UtteranceEnd, UtteranceEnd, ExtractBegin, ExtractFinish short_env, Prev]
        scenario_app)
     = Inr (True, 0, [''Only''], [])"
  by code_simp

text \<open>
  C6, amended. Every sequence of events from the initial state (the player's operations and
  the engine's signals, and also the mount, the settings and the extractions) runs without
  an uncaught exception and ends with an index that is not negative. \<^verbatim>\<open>previous()\<close>
  returns normally in every state whatever. When the player is not reading it changes
  nothing, the index included. When the player is reading it leaves an index that is not
  negative: the old one minus 1 clamped at 0, unless the restart finds that value at or
  past the end of a non-empty list with an engine present, and then 0; in particular it is
  the old index minus 1 clamped at 0 whenever the old index is at most the length of the
  list.
\<close>

theorem cursor_never_negative:
  fixes s :: "('n::one) app"
  shows "(\<exists>s'. run js evs (init_app st :: 'n app) = Inr s' \<and> 0 \<le> currentSpeechIndex s') \<and>
   (\<exists>s'. prevSegment s = Inr s' \<and>
      (if isReading s
       then 0 \<le> currentSpeechIndex s' \<and>
            currentSpeechIndex s' =
              (if contentSegments s \<noteq> [] \<and> speechSynthesis s \<noteq> None \<and>
                  max 0 (currentSpeechIndex s - 1) \<ge> int (length (contentSegments s))
               then 0 else max 0 (currentSpeechIndex s - 1)) \<and>
            (currentSpeechIndex s \<le> int (length (contentSegments s)) \<longrightarrow>
               currentSpeechIndex s' = max 0 (currentSpeechIndex s - 1))
       else s' = s))"
proof
  from run_init_sane[of js evs st]
  show "\<exists>s'. run js evs (init_app st :: 'n app) = Inr s' \<and> 0 \<le> currentSpeechIndex s'"
    by (auto simp: sane_def)
next
  from prevSegment_exact[of s] obtain s' where s': "prevSegment s = Inr s'"
    "if isReading s
      then currentSpeechIndex s' =
             (if contentSegments s \<noteq> [] \<and> speechSynthesis s \<noteq> None \<and>
                 max 0 (currentSpeechIndex s - 1) \<ge> int (length (contentSegments s))
              then 0 else max 0 (currentSpeechIndex s - 1))
      else s' = s" by blast
  then show "\<exists>s'. prevSegment s = Inr s' \<and>
      (if isReading s
       then 0 \<le> currentSpeechIndex s' \<and>
            currentSpeechIndex s' =
              (if contentSegments s \<noteq> [] \<and> speechSynthesis s \<noteq> None \<and>
                  max 0 (currentSpeechIndex s - 1) \<ge> int (length (contentSegments s))
               then 0 else max 0 (currentSpeechIndex s - 1)) \<and>
            (currentSpeechIndex s \<le> int (length (contentSegments s)) \<longrightarrow>
               currentSpeechIndex s' = max 0 (currentSpeechIndex s - 1))
       else s' = s)"
    by (cases "isReading s") auto
qed

lemma previous_twice:
  "map_sum id observe (run scenario_js (scenario_opening @ [Start, UtteranceEnd, Prev, Prev]) (init_app []))
     = Inr (True, 0, [''Intro''], [])"
  by code_simp

text \<open>From the heading, \<^verbatim>\<open>previous()\<close> twice: the index goes to 0 and stays there.\<close>

theorem cursor_never_negative_witness:
  "(\<exists>s'. run scenario_js (scenario_opening @ [Start, UtteranceEnd, Prev, Prev]) (init_app []) = Inr s' \<and>
      0 \<le> currentSpeechIndex s' \<and> observe s' = (True, 0, [''Intro''], [])) \<and>
   isReading (scenario_after [Start, UtteranceEnd]) \<and>
   currentSpeechIndex (scenario_after [Start, UtteranceEnd]) = 1 \<and>
   (\<exists>s'. prevSegment (scenario_after [Start, UtteranceEnd]) = Inr s' \<and> currentSpeechIndex s' = 0)"
proof -
  let ?s = "scenario_after [Start, UtteranceEnd]"
  let ?evs = "scenario_opening @ [Start, UtteranceEnd, Prev, Prev]"
  have f: "isReading ?s" "currentSpeechIndex ?s = 1"
    using observe_fields[OF reading_heading(2)] by simp_all
  from cursor_never_negative [of scenario_js ?evs "[]" ?s] obtain s1 s2 where
    s1: "run scenario_js ?evs (init_app []) = Inr s1" "0 \<le> currentSpeechIndex s1" and
    s2: "prevSegment ?s = Inr s2" "currentSpeechIndex s2 =
              (if contentSegments ?s \<noteq> [] \<and> speechSynthesis ?s \<noteq> None \<and>
                  max 0 (currentSpeechIndex ?s - 1) \<ge> int (length (contentSegments ?s))
               then 0 else max 0 (currentSpeechIndex ?s - 1))"
    using f by auto
  from s2(2) have "currentSpeechIndex s2 = 0" by (simp add: f)
  moreover from previous_twice s1(1) have "observe s1 = (True, 0, [''Intro''], [])" by simp
  ultimately show ?thesis using s1 s2(1) f by auto
qed

section \<open>C7: stop\<close>

lemma cancel_idle: "queue e = [] \<Longrightarrow> cancel e = e"
  by (simp add: cancel_def)

lemma stopReading_idem: "stopReading (stopReading s) = stopReading s"
  by (cases "speechSynthesis s") (simp_all add: stopReading_def cancel_def)

lemma stopReading_not_reading:
  "\<not> isReading s \<Longrightarrow>
     stopReading s = s\<lparr>speechSynthesis := map_option cancel (speechSynthesis s)\<rparr>"
  by (cases "speechSynthesis s") (simp_all add: stopReading_def)

lemma stopReading_idle:
  "\<not> isReading s \<Longrightarrow> in_flight s = [] \<Longrightarrow> stopReading s = s"
  by (cases "speechSynthesis s") (simp_all add: stopReading_def in_flight_def cancel_idle)

lemma stopReading_halts:
  "sane s \<Longrightarrow> \<not> isReading (stopReading s) \<and> in_flight (stopReading s) = []"
  by (cases "speechSynthesis s") (simp_all add: stopReading_def in_flight_def cancel_def sane_def)

text \<open>
  C7. In every state a run from the initial state can end in, \<^verbatim>\<open>stop()\<close> leaves the
  reading flag off and nothing held by the engine (the utterance in flight is cancelled);
  \<^verbatim>\<open>stop()\<close> twice is \<^verbatim>\<open>stop()\<close> once; and when the player is not reading,
  \<^verbatim>\<open>stop()\<close> changes nothing of the popup's own state, it only sends \<^verbatim>\<open>cancel\<close> to
  the engine, which with nothing in flight leaves the whole state as it was.
\<close>

theorem stop_halts_and_is_idempotent:
  assumes "run js evs (init_app st :: ('n::one) app) = Inr s"
  shows "\<not> isReading (stopReading s) \<and> in_flight (stopReading s) = [] \<and>
         stopReading (stopReading s) = stopReading s \<and>
         (\<not> isReading s \<longrightarrow>
            stopReading s = s\<lparr>speechSynthesis := map_option cancel (speechSynthesis s)\<rparr> \<and>
            (in_flight s = [] \<longrightarrow> stopReading s = s))"
proof -
  from run_init_sane[of js evs st] assms have "sane s" by auto
  then show ?thesis
    using stopReading_halts stopReading_idem stopReading_not_reading stopReading_idle by blast
qed

lemma opening_then_heading:
  "run scenario_js (scenario_opening @ [Start, UtteranceEnd]) (init_app [])
     = Inr (scenario_after [Start, UtteranceEnd])"
  by code_simp

text \<open>Stopping while the heading is read, and stopping the popup that has not started.\<close>

theorem stop_halts_and_is_idempotent_witness:
  "run scenario_js (scenario_opening @ [Start, UtteranceEnd]) (init_app [])
     = Inr (scenario_after [Start, UtteranceEnd]) \<and>
   isReading (scenario_after [Start, UtteranceEnd]) \<and>
   map utt_text (in_flight (scenario_after [Start, UtteranceEnd])) = [''Heading''] \<and>
   \<not> isReading (stopReading (scenario_after [Start, UtteranceEnd])) \<and>
   in_flight (stopReading (scenario_after [Start, UtteranceEnd])) = [] \<and>
   stopReading (stopReading (scenario_after [Start, UtteranceEnd]))
     = stopReading (scenario_after [Start, UtteranceEnd]) \<and>
   run scenario_js scenario_opening (init_app []) = Inr scenario_app \<and>
   \<not> isReading scenario_app \<and> in_flight scenario_app = [] \<and>
   stopReading scenario_app = scenario_app"
proof -
  let ?h = "scenario_after [Start, UtteranceEnd]"
  note a = stop_halts_and_is_idempotent [OF opening_then_heading]
  note b = stop_halts_and_is_idempotent [OF scenario_opening_run]
  have f: "isReading ?h" "map utt_text (in_flight ?h) = [''Heading'']"
    using observe_fields[OF reading_heading(2)] by simp_all
  have g: "\<not> isReading scenario_app" "in_flight scenario_app = []"
    by (simp_all add: scenario_app_fields in_flight_def scenario_engine_def)
  from b g have "stopReading scenario_app = scenario_app" by blast
  with a f g opening_then_heading scenario_opening_run show ?thesis by blast
qed

section \<open>C8: start without content or without an engine\<close>

lemma mute_app_fields:
  "contentSegments mute_app = scenario_segments"
  "speechSynthesis mute_app = None"
  "isReading mute_app = False"
  by (simp_all add: mute_app_def scenario_defs)

text \<open>
  C8. With an empty segment list \<^verbatim>\<open>start()\<close> returns normally and changes nothing but
  the error slot, which holds \<open>No content to read\<close>: the reading flag is as before
  (false if it was false) and the engine has been handed nothing. With a non-empty list
  and no engine it changes nothing but the error slot, which holds \<open>Speech synthesis not
  available\<close>. \<^verbatim>\<open>start()\<close> returns normally whenever the index is not negative, hence
  in every state a run from the initial state can end in.
\<close>

theorem start_reports_missing_content_or_engine:
  fixes s :: "('n::one) app"
  shows "(contentSegments s = [] \<longrightarrow> startReading s = Inr (s\<lparr>error := ''No content to read''\<rparr>)) \<and>
   (contentSegments s \<noteq> [] \<and> speechSynthesis s = None \<longrightarrow>
      startReading s = Inr (s\<lparr>error := ''Speech synthesis not available''\<rparr>)) \<and>
   (0 \<le> currentSpeechIndex s \<longrightarrow> (\<exists>s'. startReading s = Inr s')) \<and>
   (run js evs (init_app st) = Inr s \<longrightarrow> (\<exists>s'. startReading s = Inr s'))"
proof (intro conjI impI)
  assume "run js evs (init_app st) = Inr s"
  with run_init_sane[of js evs st] have "sane s" by auto
  from startReading_sane[OF this] show "\<exists>s'. startReading s = Inr s'" by blast
next
  assume "0 \<le> currentSpeechIndex s"
  from startReading_total[OF this] show "\<exists>s'. startReading s = Inr s'" by blast
qed (simp_all add: startReading_def)

theorem start_reports_missing_content_or_engine_witness:
  "contentSegments (init_app [] :: rat app) = [] \<and>
   startReading (init_app [] :: rat app) = Inr ((init_app [])\<lparr>error := ''No content to read''\<rparr>) \<and>
   \<not> isReading ((init_app [])\<lparr>error := ''No content to read''\<rparr> :: rat app) \<and>
   contentSegments mute_app \<noteq> [] \<and> speechSynthesis mute_app = None \<and>
   startReading mute_app = Inr (mute_app\<lparr>error := ''Speech synthesis not available''\<rparr>) \<and>
   run scenario_js scenario_opening (init_app []) = Inr scenario_app \<and>
   (\<exists>s'. startReading scenario_app = Inr s')"
  using start_reports_missing_content_or_engine [of "init_app [] :: rat app" scenario_js "[]" "[]"]
    start_reports_missing_content_or_engine [of mute_app scenario_js "[]" "[]"]
    start_reports_missing_content_or_engine [of scenario_app scenario_js scenario_opening "[]"]
    scenario_opening_run
  by (simp add: mute_app_fields scenario_segments_def) (simp add: init_app_def)

section \<open>C9: the settings and the store\<close>

lemma getItem_setItem:
  "getItem k (setItem k' v st) = (if k = k' then Some v else getItem k st)"
  by (simp add: getItem_def setItem_def update_conv')

lemma flushWatchers_settled: "settled (flushWatchers js s)"
  by (simp add: settled_def flushWatchers_def Let_def)

lemma startReading_settled: "startReading s = Inr s' \<Longrightarrow> settled s \<Longrightarrow> settled s'"
  by (auto simp: startReading_def speakCurrentSegment_def stopReading_def Let_def settled_def
      split: if_splits option.splits)

lemma step_settled:
  assumes "step js e s = Inr s'" "settled s"
  shows "settled s'"
proof (cases e)
  case ExtractBegin then show ?thesis using assms by (auto simp: getPageContent_begin_def settled_def)
next
  case (ExtractFinish env) then show ?thesis using assms
    by (auto simp: getPageContent_finish_def settled_def Let_def split: sum.splits prod.splits option.splits)
next
  case Start then show ?thesis using assms startReading_settled by auto
next
  case Stop then show ?thesis using assms
    by (cases "speechSynthesis s") (auto simp: stopReading_def settled_def)
next
  case TogglePause then show ?thesis using assms
    by (cases "speechSynthesis s") (auto simp: togglePause_def settled_def)
next
  case Next
  have "settled ((stopReading s)\<lparr>currentSpeechIndex := currentSpeechIndex (stopReading s) + 1\<rparr>)"
    using assms(2) by (cases "speechSynthesis s") (auto simp: stopReading_def settled_def)
  then show ?thesis using Next assms startReading_settled
    by (cases "isReading s") (auto simp: nextSegment_def Let_def)
next
  case Prev
  have "settled ((stopReading s)\<lparr>currentSpeechIndex :=
      max 0 (currentSpeechIndex (stopReading s) - 1)\<rparr>)"
    using assms(2) by (cases "speechSynthesis s") (auto simp: stopReading_def settled_def)
  then show ?thesis using Prev assms startReading_settled
    by (cases "isReading s") (auto simp: prevSegment_def Let_def)
next
  case UtteranceEnd then show ?thesis using assms
    by (cases "speechSynthesis s")
       (auto simp: utterance_onend_def dequeue_def speakCurrentSegment_def Let_def settled_def
          split: if_splits)
next
  case UtteranceError then show ?thesis using assms
    by (cases "speechSynthesis s") (auto simp: utterance_onerror_def dequeue_def settled_def)
qed (use assms flushWatchers_settled in auto)

text \<open>Between two events nothing waits to be persisted.\<close>

lemma run_settled: "run js evs s = Inr s' \<Longrightarrow> settled s \<Longrightarrow> settled s'"
proof (induction evs arbitrary: s)
  case Nil then show ?case by simp
next
  case (Cons e evs)
  from Cons.prems(1) obtain s1 where s1: "step js e s = Inr s1" "run js evs s1 = Inr s'"
    by (auto split: sum.splits)
  from step_settled[OF s1(1) Cons.prems(2)] Cons.IH[OF s1(2)] show ?case by blast
qed


lemma flush_rate:
  assumes "settled s"
  shows "flushWatchers js (s\<lparr>speechRate := v\<rparr>) =
           (if v = speechRate s then s
            else s\<lparr>speechRate := v, watchedRate := v,
                   localStorage := setItem ''wxt-speech-rate'' (toString js v) (localStorage s)\<rparr>)"
  using assms by (simp add: flushWatchers_def settled_def Let_def)

lemma flush_pitch:
  assumes "settled s"
  shows "flushWatchers js (s\<lparr>speechPitch := v\<rparr>) =
           (if v = speechPitch s then s
            else s\<lparr>speechPitch := v, watchedPitch := v,
                   localStorage := setItem ''wxt-speech-pitch'' (toString js v) (localStorage s)\<rparr>)"
  using assms by (simp add: flushWatchers_def settled_def Let_def)

lemma flush_voice:
  assumes "settled s"
  shows "flushWatchers js (s\<lparr>speechVoice := v\<rparr>) =
           (if v = speechVoice s then s
            else s\<lparr>speechVoice := v, watchedVoice := v,
                   localStorage := setItem ''wxt-speech-voice'' v (localStorage s)\<rparr>)"
  using assms by (simp add: flushWatchers_def settled_def Let_def)

lemma speechRate_flushWatchers: "speechRate (flushWatchers js s) = speechRate s"
  by (simp add: flushWatchers_def Let_def)









text \<open>
  Where the platform's conversions round-trip every number, the store agrees with the rate
  in a new session and after every event that follows.
\<close>

lemma rate_saved_view: "rate_view s' = rate_view s \<Longrightarrow> rate_saved js s' = rate_saved js s"
  by (auto simp: rate_view_def rate_saved_def split: option.splits)

lemma settled_rate: "settled s \<Longrightarrow> watchedRate s = speechRate s"
  by (simp add: settled_def)

lemma rate_view_flush:
  "watchedRate s = speechRate s \<Longrightarrow> rate_view (flushWatchers js s) = rate_view s"
  by (simp add: rate_view_def flushWatchers_def Let_def getItem_setItem)

lemma rate_view_getVoices: "rate_view (getVoices s) = rate_view s"
  by (cases "speechSynthesis s") (simp_all add: getVoices_def Let_def rate_view_def)

lemma rate_view_init: "rate_view (initSpeechSynthesis w s) = rate_view s"
proof (cases w)
  case None then show ?thesis by (simp add: initSpeechSynthesis_def rate_view_def)
next
  case (Some e)
  then show ?thesis
    by (simp add: initSpeechSynthesis_def Let_def rate_view_getVoices) (simp add: rate_view_def)
qed

lemma onMounted_rate_view:
  "rate_view (onMounted js w s) =
     ((case getItem ''wxt-speech-rate'' (localStorage s) of
         Some str \<Rightarrow> parseFloat js str | None \<Rightarrow> speechRate s),
      watchedRate s, getItem ''wxt-speech-rate'' (localStorage s))"
  by (simp add: onMounted_def Let_def rate_view_init)
     (simp add: rate_view_def split: option.splits)

lemma rate_view_onMounted:
  "rate_saved js s \<Longrightarrow> rate_view (onMounted js w s) = rate_view s"
  using onMounted_rate_view[of js w s]
  by (auto simp: rate_saved_def rate_view_def split: option.splits)

lemma flushWatchers_rate_entry:
  "getItem ''wxt-speech-rate'' (localStorage (flushWatchers js s)) =
     (if speechRate s \<noteq> watchedRate s then Some (toString js (speechRate s))
      else getItem ''wxt-speech-rate'' (localStorage s))"
  by (simp add: flushWatchers_def Let_def getItem_setItem)

lemma rate_view_voiceschanged: "rate_view (voiceschanged vs s) = rate_view s"
proof (cases "speechSynthesis s")
  case None then show ?thesis by (simp add: voiceschanged_def)
next
  case (Some e) then show ?thesis
    by (simp add: voiceschanged_def Let_def rate_view_getVoices) (simp add: rate_view_def)
qed

lemma rate_view_store_article:
  "store_article env a st = (st', r) \<Longrightarrow>
     getItem ''wxt-speech-rate'' st' = getItem ''wxt-speech-rate'' st"
  by (auto simp: store_article_def try_setItem_def getItem_setItem split: sum.splits option.splits)

lemma rate_view_finish: "rate_view (getPageContent_finish env s) = rate_view s"
  by (auto simp: getPageContent_finish_def Let_def rate_view_def
      dest: rate_view_store_article split: sum.splits prod.splits option.splits)

lemma rate_view_startReading: "startReading s = Inr s' \<Longrightarrow> rate_view s' = rate_view s"
  by (auto simp: startReading_def speakCurrentSegment_def stopReading_def Let_def rate_view_def
      split: if_splits option.splits)

lemma rate_view_stopReading: "rate_view (stopReading s) = rate_view s"
  by (cases "speechSynthesis s") (simp_all add: stopReading_def rate_view_def)

lemma step_rate_saved:
  assumes "\<forall>x. parseFloat js (toString js x) = x" "settled s" "rate_saved js s"
    "step js e s = Inr s'"
  shows "rate_saved js s'"
proof (cases e)
  case (Mounted w)
  have "watchedRate (onMounted js w s) = speechRate (onMounted js w s)"
    using rate_view_onMounted[OF assms(3), of w] settled_rate[OF assms(2)]
    by (simp add: rate_view_def)
  from rate_view_flush[OF this, of js] rate_view_onMounted[OF assms(3), of w]
  have "rate_view s' = rate_view s" using Mounted assms(4) by auto
  then show ?thesis using assms(3) rate_saved_view by blast
next
  case (VoicesChanged vs)
  have "watchedRate (voiceschanged vs s) = speechRate (voiceschanged vs s)"
    using rate_view_voiceschanged[of vs s] settled_rate[OF assms(2)] by (simp add: rate_view_def)
  from rate_view_flush[OF this, of js] rate_view_voiceschanged[of vs s]
  have "rate_view s' = rate_view s" using VoicesChanged assms(4) by auto
  then show ?thesis using assms(3) rate_saved_view by blast
next
  case (SetRate v)
  then show ?thesis using assms
    by (auto simp: flush_rate rate_saved_def getItem_setItem split: if_splits option.splits)
next
  case (SetPitch v)
  then show ?thesis using assms
    by (auto simp: flush_pitch rate_saved_def getItem_setItem split: if_splits option.splits)
next
  case (SetVoice v)
  then show ?thesis using assms
    by (auto simp: flush_voice rate_saved_def getItem_setItem split: if_splits option.splits)
next
  case ExtractBegin
  then show ?thesis using assms
    by (auto simp: getPageContent_begin_def rate_saved_def split: option.splits)
next
  case (ExtractFinish env)
  then show ?thesis using assms rate_saved_view[OF rate_view_finish[of env s], of js] by simp
next
  case Start
  with assms(4) have "startReading s = Inr s'" by simp
  from rate_saved_view[OF rate_view_startReading[OF this], of js] assms(3) show ?thesis by simp
next
  case Stop
  then show ?thesis using assms rate_saved_view[OF rate_view_stopReading[of s], of js] by auto
next
  case TogglePause
  then show ?thesis using assms
    by (cases "speechSynthesis s") (auto simp: togglePause_def rate_saved_def split: option.splits)
next
  case Next
  show ?thesis
  proof (cases "isReading s")
    case False then show ?thesis using Next assms by (simp add: nextSegment_def)
  next
    case True
    let ?s1 = "(stopReading s)\<lparr>currentSpeechIndex := currentSpeechIndex (stopReading s) + 1\<rparr>"
    have "rate_view ?s1 = rate_view s" using rate_view_stopReading[of s] by (simp add: rate_view_def)
    moreover from Next True assms(4) have "startReading ?s1 = Inr s'"
      by (simp add: nextSegment_def Let_def)
    ultimately have "rate_view s' = rate_view s" using rate_view_startReading by metis
    then show ?thesis using assms(3) rate_saved_view by blast
  qed
next
  case Prev
  show ?thesis
  proof (cases "isReading s")
    case False then show ?thesis using Prev assms by (simp add: prevSegment_def)
  next
    case True
    let ?s1 = "(stopReading s)\<lparr>currentSpeechIndex := max 0 (currentSpeechIndex (stopReading s) - 1)\<rparr>"
    have "rate_view ?s1 = rate_view s" using rate_view_stopReading[of s] by (simp add: rate_view_def)
    moreover from Prev True assms(4) have "startReading ?s1 = Inr s'"
      by (simp add: prevSegment_def Let_def)
    ultimately have "rate_view s' = rate_view s" using rate_view_startReading by metis
    then show ?thesis using assms(3) rate_saved_view by blast
  qed
next
  case UtteranceEnd
  then show ?thesis using assms
    by (cases "speechSynthesis s")
       (auto simp: utterance_onend_def dequeue_def speakCurrentSegment_def Let_def rate_saved_def
          split: if_splits option.splits)
next
  case UtteranceError
  then show ?thesis using assms
    by (cases "speechSynthesis s")
       (auto simp: utterance_onerror_def dequeue_def rate_saved_def split: option.splits)
qed

lemma run_rate_saved:
  assumes "\<forall>x. parseFloat js (toString js x) = x"
  shows "settled s \<Longrightarrow> rate_saved js s \<Longrightarrow> run js evs s = Inr s' \<Longrightarrow> rate_saved js s'"
proof (induction evs arbitrary: s)
  case Nil then show ?case by simp
next
  case (Cons e evs)
  from Cons.prems(3) obtain s1 where s1: "step js e s = Inr s1" "run js evs s1 = Inr s'"
    by (auto split: sum.splits)
  from step_rate_saved[OF assms Cons.prems(1,2) s1(1)] step_settled[OF s1(1) Cons.prems(1)]
    Cons.IH[OF _ _ s1(2)] show ?case by blast
qed

lemma reload_rate_saved:
  assumes "\<forall>x. parseFloat js (toString js x) = x"
  shows "rate_saved js (reload js w st :: ('n::one) app)"
proof -
  let ?m = "onMounted js w (init_app st :: 'n app)"
  have v: "rate_view ?m =
      ((case getItem ''wxt-speech-rate'' st of Some str \<Rightarrow> parseFloat js str | None \<Rightarrow> 1),
       1, getItem ''wxt-speech-rate'' st)"
    by (simp add: onMounted_rate_view init_app_def split: option.splits)
  then have m: "speechRate ?m =
      (case getItem ''wxt-speech-rate'' st of Some str \<Rightarrow> parseFloat js str | None \<Rightarrow> 1)"
    "watchedRate ?m = 1" "getItem ''wxt-speech-rate'' (localStorage ?m) = getItem ''wxt-speech-rate'' st"
    by (simp_all add: rate_view_def)
  show ?thesis
    unfolding rate_saved_def reload_def speechRate_flushWatchers flushWatchers_rate_entry m
    using assms by (auto split: option.splits)
qed

lemma run_reload_rate_saved:
  assumes "\<forall>x. parseFloat js (toString js x) = x"
    and "run js evs (reload js w st :: ('n::one) app) = Inr s"
  shows "settled s \<and> rate_saved js s"
proof -
  have a: "settled (reload js w st :: 'n app)" by (simp add: reload_def flushWatchers_settled)
  from run_settled[OF assms(2) a] run_rate_saved[OF assms(1) a reload_rate_saved[OF assms(1)] assms(2)]
  show ?thesis by blast
qed






section \<open>C10: reading only with segments and an engine\<close>

lemma speakCurrentSegment_keeps:
  "speakCurrentSegment s = Inr s' \<Longrightarrow>
     contentSegments s' = contentSegments s \<and> (isReading s' \<longrightarrow> isReading s) \<and>
     (speechSynthesis s' = None \<longleftrightarrow> speechSynthesis s = None)"
  by (auto simp: speakCurrentSegment_def Let_def split: if_splits option.splits)

lemma stopReading_keeps:
  "contentSegments (stopReading s) = contentSegments s \<and>
   (isReading (stopReading s) \<longrightarrow> isReading s) \<and>
   (speechSynthesis (stopReading s) = None \<longleftrightarrow> speechSynthesis s = None)"
  by (cases "speechSynthesis s") (simp_all add: stopReading_def)

lemma startReading_keeps:
  "startReading s = Inr s' \<Longrightarrow>
     contentSegments s' = contentSegments s \<and>
     (speechSynthesis s' = None \<longleftrightarrow> speechSynthesis s = None) \<and>
     (isReading s' \<and> \<not> isReading s \<longrightarrow> contentSegments s \<noteq> [] \<and> speechSynthesis s \<noteq> None)"
  by (auto simp: startReading_def Let_def stopReading_keeps
      dest!: speakCurrentSegment_keeps split: if_splits)

lemma player_step_keeps:
  assumes "player_event e" "step js e s = Inr s'"
  shows "contentSegments s' = contentSegments s \<and>
     (speechSynthesis s' = None \<longleftrightarrow> speechSynthesis s = None) \<and>
     (isReading s' \<and> \<not> isReading s \<longrightarrow>
        e = Start \<and> contentSegments s \<noteq> [] \<and> speechSynthesis s \<noteq> None)"
proof (cases e)
  case Start then show ?thesis using assms startReading_keeps[of s s'] by simp
next
  case Stop then show ?thesis using assms stopReading_keeps[of s] by auto
next
  case TogglePause then show ?thesis using assms
    by (cases "speechSynthesis s") (auto simp: togglePause_def)
next
  case Next
  show ?thesis
  proof (cases "isReading s")
    case False then show ?thesis using assms Next by (simp add: nextSegment_def)
  next
    case True
    let ?s1 = "(stopReading s)\<lparr>currentSpeechIndex := currentSpeechIndex (stopReading s) + 1\<rparr>"
    from assms Next True have "startReading ?s1 = Inr s'" by (simp add: nextSegment_def Let_def)
    from startReading_keeps[OF this] show ?thesis using True stopReading_keeps[of s] by simp
  qed
next
  case Prev
  show ?thesis
  proof (cases "isReading s")
    case False then show ?thesis using assms Prev by (simp add: prevSegment_def)
  next
    case True
    let ?s1 = "(stopReading s)\<lparr>currentSpeechIndex := max 0 (currentSpeechIndex (stopReading s) - 1)\<rparr>"
    from assms Prev True have "startReading ?s1 = Inr s'" by (simp add: prevSegment_def Let_def)
    from startReading_keeps[OF this] show ?thesis using True stopReading_keeps[of s] by simp
  qed
next
  case UtteranceEnd
  from assms UtteranceEnd have
    "speakCurrentSegment ((dequeue s)\<lparr>currentSpeechIndex := currentSpeechIndex (dequeue s) + 1\<rparr>)
       = Inr s'"
    by (simp add: utterance_onend_def)
  from speakCurrentSegment_keeps[OF this] show ?thesis
    by (cases "speechSynthesis s") (auto simp: dequeue_def)
next
  case UtteranceError then show ?thesis using assms
    by (cases "speechSynthesis s") (auto simp: dequeue_def utterance_onerror_def)
qed (use assms in simp_all)

lemma player_step_playable:
  assumes "player_event e" "step js e s = Inr s'" "playable s"
  shows "playable s'"
  using player_step_keeps[OF assms(1,2)] assms(3) unfolding playable_def by auto

lemma player_run_playable:
  "\<forall>e\<in>set evs. player_event e \<Longrightarrow> playable s \<Longrightarrow> run js evs s = Inr s' \<Longrightarrow> playable s'"
proof (induction evs arbitrary: s)
  case Nil then show ?case by simp
next
  case (Cons e evs)
  from Cons.prems(3) obtain s1 where s1: "step js e s = Inr s1" "run js evs s1 = Inr s'"
    by (auto split: sum.splits)
  from Cons.prems(1) have "player_event e" by simp
  from player_step_playable[OF this s1(1) Cons.prems(2)] have "playable s1" .
  with Cons.IH[of s1] Cons.prems(1) s1(2) show ?case by simp
qed

text \<open>
  C10. Start from any state in which reading, if on, has a non-empty segment list and an
  engine (any state with reading off is one). After any sequence of the player's
  operations and engine signals, reading is on only with a non-empty segment list and an
  engine. Moreover the one step of the player that turns reading on from off is
  \<^verbatim>\<open>start()\<close>, and it does so only when the list is non-empty and the engine present;
  after every other step reading is on only if it was on before.
\<close>

theorem reading_only_with_segments_and_engine:
  assumes "\<forall>e\<in>set evs. player_event e" and "playable s" and "run js evs s = Inr s'"
  shows "playable s' \<and>
         (\<forall>e s1 s2. player_event e \<and> step js e s1 = Inr s2 \<and> isReading s2 \<and> \<not> isReading s1 \<longrightarrow>
            e = Start \<and> contentSegments s1 \<noteq> [] \<and> speechSynthesis s1 \<noteq> None)"
  using player_run_playable[OF assms] player_step_keeps by blast

lemma player_tour:
  "run scenario_js [Start, UtteranceEnd, Next, Prev, TogglePause, Stop, Start] scenario_app
     = Inr (scenario_after [Start, UtteranceEnd, Next, Prev, TogglePause, Stop, Start])"
  "observe (scenario_after [Start, UtteranceEnd, Next, Prev, TogglePause, Stop, Start])
     = (True, 1, [''Heading''], [])"
  by code_simp+

theorem reading_only_with_segments_and_engine_witness:
  "list_all player_event [Start, UtteranceEnd, Next, Prev, TogglePause, Stop, Start :: rat event] \<and>
   playable scenario_app \<and>
   run scenario_js [Start, UtteranceEnd, Next, Prev, TogglePause, Stop, Start] scenario_app
     = Inr (scenario_after [Start, UtteranceEnd, Next, Prev, TogglePause, Stop, Start]) \<and>
   isReading (scenario_after [Start, UtteranceEnd, Next, Prev, TogglePause, Stop, Start]) \<and>
   contentSegments (scenario_after [Start, UtteranceEnd, Next, Prev, TogglePause, Stop, Start]) \<noteq> [] \<and>
   speechSynthesis (scenario_after [Start, UtteranceEnd, Next, Prev, TogglePause, Stop, Start]) \<noteq> None"
proof -
  let ?evs = "[Start, UtteranceEnd, Next, Prev, TogglePause, Stop, Start :: rat event]"
  have a: "\<forall>e\<in>set ?evs. player_event e" by simp
  have b: "playable scenario_app" by (simp add: playable_def scenario_app_fields)
  have r: "isReading (scenario_after ?evs)" using observe_fields[OF player_tour(2)] by simp
  from reading_only_with_segments_and_engine [OF a b player_tour(1)]
  have "playable (scenario_after ?evs)" by blast
  with r a b player_tour(1) show ?thesis by (simp add: playable_def)
qed

text \<open>
  The statement is about the player's operations. An extraction is not one of them: when it
  begins during playback it empties the segment list at once, while reading stays on until
  the engine's next signal.
\<close>

lemma extraction_while_reading:
  "isReading (scenario_after [Start, ExtractBegin]) \<and>
   contentSegments (scenario_after [Start, ExtractBegin]) = [] \<and>
   \<not> isReading (scenario_after [Start, ExtractBegin, UtteranceEnd])"
  by code_simp

end
